theory Spec2Isabelle
  imports Main
begin

section \<open>The raw collaborator \<open>FileHandle\<close>\<close>

text \<open>
  \<open>src/smart_pointers/usecase_heavy_objects.cpp\<close>, second part (\<open>usecase_files.cpp\<close>).
  \<open>class FileHandle\<close> has one member, \<open>std::string name_ = "uninitialized."\<close>, and three
  methods that print one line to \<open>std::cout\<close> and (for \<open>open\<close> and \<open>close\<close>) overwrite the
  member. A trailing underscore is not an Isabelle name, so the members \<open>name_\<close> and \<open>fh_\<close>
  are called \<open>name\<close> and \<open>fh\<close> here.

  Each method is modelled as a function from the object before the call to the object
  after it and the line it printed. None of the three bodies has a branch, a check or a
  \<open>throw\<close>, so none of the three functions has a failure value.
\<close>

record FileHandle =
  name :: string

datatype event = Opening string | Closing string | Writing string

text \<open>The line that reaches \<open>std::cout\<close> for an event.\<close>

fun line :: "event \<Rightarrow> string" where
  "line (Opening n) = ''opening: '' @ n @ [CHR 0x0A]"
| "line (Closing n) = ''closing: '' @ n @ [CHR 0x0A]"
| "line (Writing n) = ''writing to: '' @ n @ [CHR 0x0A]"

text \<open>\<open>FileHandle foo;\<close> default member initialiser.\<close>

definition FileHandle_new :: FileHandle where
  "FileHandle_new = \<lparr>name = ''uninitialized.''\<rparr>"

text \<open>\<open>void open(std::string name)\<close>: prints the argument, then stores it.\<close>

definition FileHandle_open :: "string \<Rightarrow> FileHandle \<Rightarrow> FileHandle \<times> event" where
  "FileHandle_open n h = (h\<lparr>name := n\<rparr>, Opening n)"

text \<open>\<open>void close()\<close>: prints the stored name, then stores \<open>"closed."\<close>.\<close>

definition FileHandle_close :: "FileHandle \<Rightarrow> FileHandle \<times> event" where
  "FileHandle_close h = (h\<lparr>name := ''closed.''\<rparr>, Closing (name h))"

text \<open>\<open>void write()\<close>: prints the stored name.\<close>

definition FileHandle_write :: "FileHandle \<Rightarrow> FileHandle \<times> event" where
  "FileHandle_write h = (h, Writing (name h))"

text \<open>
  A sequence of method calls on one \<open>FileHandle\<close> object, as in the first block of
  \<open>main\<close>; the result is the object and the events in the order they were printed.
\<close>

datatype fh_call = Open string | Close | Write

fun FileHandle_call :: "fh_call \<Rightarrow> FileHandle \<Rightarrow> FileHandle \<times> event" where
  "FileHandle_call (Open n) h = FileHandle_open n h"
| "FileHandle_call Close h = FileHandle_close h"
| "FileHandle_call Write h = FileHandle_write h"

fun FileHandle_calls :: "fh_call list \<Rightarrow> FileHandle \<Rightarrow> FileHandle \<times> event list" where
  "FileHandle_calls [] h = (h, [])"
| "FileHandle_calls (c # cs) h =
     (let (h1, e) = FileHandle_call c h;
          (h2, es) = FileHandle_calls cs h1
      in (h2, e # es))"

text \<open>Lines 242 to 252 of \<open>main\<close>: the calls made on the stack object \<open>foo\<close>.\<close>

definition main_foo_calls :: "fh_call list" where
  "main_foo_calls =
     [Write, Open ''foo (fh)'', Write, Close, Write, Close, Open ''foo (reborn)'']"


section \<open>The world of \<open>File\<close> objects\<close>

text \<open>
  \<open>class File\<close> has one member, \<open>std::unique_ptr<FileHandle> fh_\<close>: either \<open>nullptr\<close>
  (\<open>None\<close>, the specification's state Empty) or the address of a \<open>FileHandle\<close> on the
  heap (\<open>Some a\<close>, the state Owning). The address is the identity of the resource.

  The world holds
  \<^item> the heap of \<open>FileHandle\<close> objects allocated by \<open>std::make_unique\<close>, with an
    allocation counter so that an address is never handed out twice;
  \<^item> the live \<open>File\<close> objects, by the identity of the object (\<open>this\<close>);
  \<^item> the log of every method call made on a heap \<open>FileHandle\<close>: the address it was
    made on and the event it printed, oldest first.
\<close>

type_synonym addr = nat
type_synonym var = nat

record File =
  fh :: "addr option"

record world =
  heap :: "addr \<Rightarrow> FileHandle option"
  next_addr :: addr
  files :: "var \<Rightarrow> File option"
  log :: "(addr \<times> event) list"

definition world0 :: world where
  "world0 = \<lparr>heap = (\<lambda>_. None), next_addr = 0, files = (\<lambda>_. None), log = []\<rparr>"

text \<open>
  How a call can end. \<open>Returns\<close>: it returned. \<open>Throws\<close>: an exception left it, with the
  world as unwinding left it. \<open>Undefined\<close>: the call has no defined behaviour in C++ (a
  null or dangling pointer was dereferenced, or the program names an object that is not
  alive or declares one twice).

  The source of \<open>File\<close> and \<open>FileHandle\<close> contains no \<open>throw\<close>. \<open>ResourceUnavailable\<close> and
  \<open>UseAfterRelease\<close> are the failure kinds the specification names; they are here so that
  statements about them can be written down.
\<close>

datatype error = ResourceUnavailable | UseAfterRelease

datatype fault = NullDereference | DanglingPointer addr | NotLive var | AlreadyLive var

datatype 'a outcome = Returns 'a | Throws error 'a | Undefined fault

text \<open>The exception a call ended with, if it ended with one.\<close>

fun raised :: "'a outcome \<Rightarrow> error option" where
  "raised (Throws e _) = Some e"
| "raised _ = None"

text \<open>
  \<open>p->m(...)\<close> for a pointer \<open>p = a\<close> that is not null: the method runs on the object
  at \<open>a\<close>, the object is updated in place and the call is logged. The method is given as
  a function that may fail, so that a collaborator whose \<open>open\<close> can fail fits; the three
  methods of the source never do, and are passed through \<open>total\<close>.
\<close>

definition total :: "(FileHandle \<Rightarrow> FileHandle \<times> event) \<Rightarrow> FileHandle \<Rightarrow> error + FileHandle \<times> event" where
  "total m h = Inr (m h)"

definition invoke :: "(FileHandle \<Rightarrow> error + FileHandle \<times> event) \<Rightarrow> addr \<Rightarrow> world \<Rightarrow> world outcome" where
  "invoke m a w =
     (case heap w a of
        None \<Rightarrow> Undefined (DanglingPointer a)
      | Some h \<Rightarrow>
          (case m h of
             Inl e \<Rightarrow> Throws e w
           | Inr (h', ev) \<Rightarrow> Returns (w\<lparr>heap := (heap w)(a \<mapsto> h'), log := log w @ [(a, ev)]\<rparr>)))"

text \<open>\<open>delete\<close> of the object a \<open>unique_ptr\<close> held (nothing for \<open>nullptr\<close>).\<close>

definition delete_fh :: "addr option \<Rightarrow> world \<Rightarrow> world" where
  "delete_fh p w = (case p of None \<Rightarrow> w | Some a \<Rightarrow> w\<lparr>heap := (heap w)(a := None)\<rparr>)"


subsection \<open>The constructor\<close>

text \<open>
  \<^verbatim>\<open>File(std::string name) : fh_(std::make_unique<FileHandle>()) { fh_->open(std::move(name)); }\<close>

  The member initialiser allocates a default \<open>FileHandle\<close> at a fresh address; the body
  calls \<open>open\<close> on it. The constructor has no \<open>try\<close>: an exception from \<open>open\<close> would leave
  the constructor, the member \<open>fh_\<close>, already constructed, would be destroyed (which
  deletes the \<open>FileHandle\<close> without calling \<open>close\<close>), and \<open>~File\<close> would not run, the
  object never having been constructed. \<open>File_ctor_with\<close> is the constructor for any
  \<open>open\<close>; \<open>File_ctor\<close> is the constructor of the source, with \<open>FileHandle::open\<close>.
\<close>

definition File_ctor_with ::
  "(string \<Rightarrow> FileHandle \<Rightarrow> error + FileHandle \<times> event) \<Rightarrow> string \<Rightarrow> var \<Rightarrow> world \<Rightarrow> world outcome" where
  "File_ctor_with open_op n this w =
     (case files w this of
        Some _ \<Rightarrow> Undefined (AlreadyLive this)
      | None \<Rightarrow>
          (let a = next_addr w;
               w1 = w\<lparr>heap := (heap w)(a \<mapsto> FileHandle_new), next_addr := Suc a\<rparr>
           in case invoke (open_op n) a w1 of
                Returns w2 \<Rightarrow> Returns (w2\<lparr>files := (files w2)(this \<mapsto> \<lparr>fh = Some a\<rparr>)\<rparr>)
              | Throws e w2 \<Rightarrow> Throws e (delete_fh (Some a) w2)
              | Undefined u \<Rightarrow> Undefined u))"

definition File_ctor :: "string \<Rightarrow> var \<Rightarrow> world \<Rightarrow> world outcome" where
  "File_ctor = File_ctor_with (\<lambda>n. total (FileHandle_open n))"


subsection \<open>The destructor\<close>

text \<open>
  \<^verbatim>\<open>~File() { if (fh_ != nullptr) { fh_->close(); } }\<close>

  After the body the member \<open>fh_\<close> is destroyed, which deletes the \<open>FileHandle\<close>, and the
  object is gone.
\<close>

definition File_dtor :: "var \<Rightarrow> world \<Rightarrow> world outcome" where
  "File_dtor this w =
     (case files w this of
        None \<Rightarrow> Undefined (NotLive this)
      | Some f \<Rightarrow>
          (case (case fh f of None \<Rightarrow> Returns w | Some a \<Rightarrow> invoke (total FileHandle_close) a w) of
             Returns w1 \<Rightarrow> Returns ((delete_fh (fh f) w1)\<lparr>files := (files w1)(this := None)\<rparr>)
           | r \<Rightarrow> r))"


subsection \<open>Move assignment and move construction\<close>

text \<open>
  \<open>fh_ = std::move(other.fh_)\<close>, the move assignment of \<open>std::unique_ptr\<close>, is
  \<open>reset(other.release())\<close>: \<open>other.fh_\<close> becomes \<open>nullptr\<close>, \<open>fh_\<close> takes its pointer,
  and the object \<open>fh_\<close> held before is deleted.
\<close>

definition move_fh :: "var \<Rightarrow> var \<Rightarrow> world \<Rightarrow> world outcome" where
  "move_fh this other w =
     (case files w other of
        None \<Rightarrow> Undefined (NotLive other)
      | Some g \<Rightarrow>
          (let w1 = w\<lparr>files := (files w)(other \<mapsto> g\<lparr>fh := None\<rparr>)\<rparr>
           in case files w1 this of
                None \<Rightarrow> Undefined (NotLive this)
              | Some f \<Rightarrow>
                  Returns ((delete_fh (fh f) w1)\<lparr>files := (files w1)(this \<mapsto> f\<lparr>fh := fh g\<rparr>)\<rparr>)))"

text \<open>
  \<^verbatim>\<open>
  File &operator=(File &&other) {
    if (this == &other) { return *this; }
    if (fh_ != nullptr) { fh_->close(); }
    fh_ = std::move(other.fh_);
    return *this;
  }\<close>
\<close>

definition File_move_assign :: "var \<Rightarrow> var \<Rightarrow> world \<Rightarrow> world outcome" where
  "File_move_assign this other w =
     (if this = other then Returns w
      else case files w this of
             None \<Rightarrow> Undefined (NotLive this)
           | Some f \<Rightarrow>
               (case (case fh f of None \<Rightarrow> Returns w | Some a \<Rightarrow> invoke (total FileHandle_close) a w) of
                  Returns w1 \<Rightarrow> move_fh this other w1
                | r \<Rightarrow> r))"

text \<open>
  \<^verbatim>\<open>File(File &&other) { (*this) = std::move(other); }\<close>

  The member \<open>fh_\<close> is default-initialised to \<open>nullptr\<close>, then the move assignment runs.
\<close>

definition File_move_ctor :: "var \<Rightarrow> var \<Rightarrow> world \<Rightarrow> world outcome" where
  "File_move_ctor this other w =
     (case files w this of
        Some _ \<Rightarrow> Undefined (AlreadyLive this)
      | None \<Rightarrow> File_move_assign this other (w\<lparr>files := (files w)(this \<mapsto> \<lparr>fh = None\<rparr>)\<rparr>))"


subsection \<open>Use\<close>

text \<open>
  \<^verbatim>\<open>void write() { fh_->write(); }\<close>

  There is no check: on a null \<open>fh_\<close> the arrow dereferences a null pointer.
\<close>

definition File_write :: "var \<Rightarrow> world \<Rightarrow> world outcome" where
  "File_write this w =
     (case files w this of
        None \<Rightarrow> Undefined (NotLive this)
      | Some f \<Rightarrow>
          (case fh f of
             None \<Rightarrow> Undefined NullDereference
           | Some a \<Rightarrow> invoke (total FileHandle_write) a w))"


subsection \<open>Sequences of operations\<close>

text \<open>
  The operations a program can apply to \<open>File\<close> objects. There is no copy: the copy
  constructor and the copy assignment are \<open>= delete\<close>, so a program that copies a \<open>File\<close>
  does not compile.
\<close>

datatype op =
    Construct var string
  | MoveConstruct var var
  | MoveAssign var var
  | WriteTo var
  | Destroy var

fun step :: "op \<Rightarrow> world \<Rightarrow> world outcome" where
  "step (Construct v n) w = File_ctor n v w"
| "step (MoveConstruct v u) w = File_move_ctor v u w"
| "step (MoveAssign v u) w = File_move_assign v u w"
| "step (WriteTo v) w = File_write v w"
| "step (Destroy v) w = File_dtor v w"

fun run :: "op list \<Rightarrow> world \<Rightarrow> world outcome" where
  "run [] w = Returns w"
| "run (x # xs) w = (case step x w of Returns w1 \<Rightarrow> run xs w1 | r \<Rightarrow> r)"


subsection \<open>Scopes\<close>

text \<open>
  A block of \<open>main\<close>: declarations of \<open>File\<close> objects, move assignments, writes, and the
  ways to leave early. However the block is left (its end, a \<open>return\<close>, a \<open>throw\<close>), the
  objects declared in it so far are destroyed, the latest first. \<open>scope_ops\<close> gives the
  operations a block executes, destructors included; its first argument is the list of
  the objects declared so far, the latest first.
\<close>

datatype stmt =
    Decl var string
  | DeclMove var var
  | Assign var var
  | Use var
  | Return
  | Throw

fun scope_ops :: "var list \<Rightarrow> stmt list \<Rightarrow> op list" where
  "scope_ops ls [] = map Destroy ls"
| "scope_ops ls (Decl v n # ss) = Construct v n # scope_ops (v # ls) ss"
| "scope_ops ls (DeclMove v u # ss) = MoveConstruct v u # scope_ops (v # ls) ss"
| "scope_ops ls (Assign v u # ss) = MoveAssign v u # scope_ops ls ss"
| "scope_ops ls (Use v # ss) = WriteTo v # scope_ops ls ss"
| "scope_ops ls (Return # ss) = map Destroy ls"
| "scope_ops ls (Throw # ss) = map Destroy ls"

text \<open>The second block of \<open>main\<close> (\<open>foo\<close> is object 0, \<open>bar\<close> is object 1) and the body of
  the \<open>try\<close> of the fourth.\<close>

definition main_raii_block :: "stmt list" where
  "main_raii_block =
     [Decl 0 ''foo (file)'', Decl 1 ''bar (file)'', Use 1, Use 0, Assign 0 1, Use 0]"

definition main_try_block :: "stmt list" where
  "main_try_block = [Decl 0 ''foo (exception)'', Throw]"


subsection \<open>Ownership and the call counts of a resource\<close>

definition holds :: "world \<Rightarrow> var \<Rightarrow> addr \<Rightarrow> bool" where
  "holds w v a = (case files w v of None \<Rightarrow> False | Some f \<Rightarrow> fh f = Some a)"

definition owned :: "world \<Rightarrow> addr \<Rightarrow> bool" where
  "owned w a = (\<exists>v. holds w v a)"

fun is_open :: "event \<Rightarrow> bool" where
  "is_open (Opening _) = True"
| "is_open _ = False"

fun is_close :: "event \<Rightarrow> bool" where
  "is_close (Closing _) = True"
| "is_close _ = False"

definition opens :: "addr \<Rightarrow> (addr \<times> event) list \<Rightarrow> nat" where
  "opens a l = length (filter (\<lambda>x. fst x = a \<and> is_open (snd x)) l)"

definition closes :: "addr \<Rightarrow> (addr \<times> event) list \<Rightarrow> nat" where
  "closes a l = length (filter (\<lambda>x. fst x = a \<and> is_close (snd x)) l)"

text \<open>
  What every world reached by running operations from \<open>world0\<close> satisfies: a pointer
  held by a live \<open>File\<close> points to an allocated \<open>FileHandle\<close>; no two live \<open>File\<close>
  objects hold the same pointer; allocated addresses are below the allocation counter;
  every address handed out so far has been opened once; and it has been closed once if
  no live \<open>File\<close> holds it, and not at all if one does.
\<close>

definition consistent :: "world \<Rightarrow> bool" where
  "consistent w \<longleftrightarrow>
     (\<forall>v a. holds w v a \<longrightarrow> heap w a \<noteq> None)
   \<and> (\<forall>v v' a. holds w v a \<longrightarrow> holds w v' a \<longrightarrow> v = v')
   \<and> (\<forall>a. heap w a \<noteq> None \<longrightarrow> a < next_addr w)
   \<and> (\<forall>a. opens a (log w) = (if a < next_addr w then 1 else 0))
   \<and> (\<forall>a. closes a (log w) = (if a < next_addr w \<and> \<not> owned w a then 1 else 0))"


section \<open>What each operation does\<close>

lemma invoke_total:
  "heap w a = Some h \<Longrightarrow>
   invoke (total m) a w = Returns (w\<lparr>heap := (heap w)(a \<mapsto> fst (m h)), log := log w @ [(a, snd (m h))]\<rparr>)"
  by (simp add: invoke_def total_def split: prod.splits)

lemma invoke_total_dangling: "heap w a = None \<Longrightarrow> invoke m a w = Undefined (DanglingPointer a)"
  by (simp add: invoke_def)

lemma File_ctor_fresh:
  "files w v = None \<Longrightarrow>
   File_ctor n v w =
     Returns (w\<lparr>heap := (heap w)(next_addr w \<mapsto> \<lparr>name = n\<rparr>),
                next_addr := Suc (next_addr w),
                log := log w @ [(next_addr w, Opening n)],
                files := (files w)(v \<mapsto> \<lparr>fh = Some (next_addr w)\<rparr>)\<rparr>)"
  by (simp add: File_ctor_def File_ctor_with_def Let_def invoke_total FileHandle_open_def FileHandle_new_def)

lemma File_dtor_empty:
  "files w v = Some f \<Longrightarrow> fh f = None \<Longrightarrow>
   File_dtor v w = Returns (w\<lparr>files := (files w)(v := None)\<rparr>)"
  by (simp add: File_dtor_def delete_fh_def)

lemma File_dtor_owning:
  "files w v = Some f \<Longrightarrow> fh f = Some a \<Longrightarrow> heap w a = Some h \<Longrightarrow>
   File_dtor v w =
     Returns (w\<lparr>heap := (heap w)(a := None),
                log := log w @ [(a, Closing (name h))],
                files := (files w)(v := None)\<rparr>)"
  by (simp add: File_dtor_def delete_fh_def invoke_total FileHandle_close_def)

lemma File_update [simp]: "(f::File)\<lparr>fh := x\<rparr> = \<lparr>fh = x\<rparr>"
  by (cases f) simp

lemma File_move_assign_empty:
  "v \<noteq> u \<Longrightarrow> files w v = Some f \<Longrightarrow> files w u = Some g \<Longrightarrow> fh f = None \<Longrightarrow>
   File_move_assign v u w =
     Returns (w\<lparr>files := (files w)(u \<mapsto> \<lparr>fh = None\<rparr>, v \<mapsto> \<lparr>fh = fh g\<rparr>)\<rparr>)"
  by (simp add: File_move_assign_def move_fh_def delete_fh_def Let_def)

lemma File_move_assign_owning:
  "v \<noteq> u \<Longrightarrow> files w v = Some f \<Longrightarrow> files w u = Some g \<Longrightarrow> fh f = Some a \<Longrightarrow>
   heap w a = Some h \<Longrightarrow>
   File_move_assign v u w =
     Returns (w\<lparr>heap := (heap w)(a := None),
                log := log w @ [(a, Closing (name h))],
                files := (files w)(u \<mapsto> \<lparr>fh = None\<rparr>, v \<mapsto> \<lparr>fh = fh g\<rparr>)\<rparr>)"
  by (simp add: File_move_assign_def move_fh_def delete_fh_def Let_def invoke_total FileHandle_close_def)

lemma File_write_owning:
  "files w v = Some f \<Longrightarrow> fh f = Some a \<Longrightarrow> heap w a = Some h \<Longrightarrow>
   File_write v w = Returns (w\<lparr>heap := (heap w)(a \<mapsto> h), log := log w @ [(a, Writing (name h))]\<rparr>)"
  by (simp add: File_write_def invoke_total FileHandle_write_def)


lemma opens_snoc: "opens a (l @ [(b, e)]) = opens a l + (if b = a \<and> is_open e then 1 else 0)"
  by (simp add: opens_def)

lemma closes_snoc: "closes a (l @ [(b, e)]) = closes a l + (if b = a \<and> is_close e then 1 else 0)"
  by (simp add: closes_def)

section \<open>The operations preserve consistency\<close>

lemma consistent_ctor:
  assumes "consistent w" "File_ctor n v w = Returns w'"
  shows "consistent w'"
proof -
  from assms(2) have live: "files w v = None"
    by (auto simp: File_ctor_def File_ctor_with_def split: option.splits)
  have nh: "\<not> holds w v a" for a
    using live by (simp add: holds_def)
  have fresh: "\<not> holds w u (next_addr w)" for u
    using assms(1) unfolding consistent_def by (metis less_irrefl)
  from File_ctor_fresh[OF live, of n] assms(2)
  have w': "w' = w\<lparr>heap := (heap w)(next_addr w \<mapsto> \<lparr>name = n\<rparr>),
                next_addr := Suc (next_addr w),
                log := log w @ [(next_addr w, Opening n)],
                files := (files w)(v \<mapsto> \<lparr>fh = Some (next_addr w)\<rparr>)\<rparr>" by simp
  have H: "holds w' u a \<longleftrightarrow> (if u = v then a = next_addr w else holds w u a)" for u a
    unfolding w' by (auto simp: holds_def)
  have own: "owned w' a \<longleftrightarrow> a = next_addr w \<or> owned w a" for a
    unfolding owned_def H using nh by (metis (full_types))
  have sel: "heap w' = (heap w)(next_addr w \<mapsto> \<lparr>name = n\<rparr>)" "next_addr w' = Suc (next_addr w)"
     "log w' = log w @ [(next_addr w, Opening n)]"
    unfolding w' by simp_all
  have fresh': "\<not> owned w (next_addr w)"
    using fresh by (simp add: owned_def)
  show ?thesis
    using assms(1) fresh fresh' unfolding consistent_def own H sel
    by (auto simp: opens_snoc closes_snoc)
qed


lemma consistent_dtor:
  assumes "consistent w" "File_dtor v w = Returns w'"
  shows "consistent w'"
proof -
  from assms(2) obtain f where live: "files w v = Some f"
    by (auto simp: File_dtor_def split: option.splits)
  show ?thesis
  proof (cases "fh f")
    case None
    from File_dtor_empty[OF live None] assms(2)
    have w': "w' = w\<lparr>files := (files w)(v := None)\<rparr>" by simp
    have nh: "\<not> holds w v a" for a
      using live None by (simp add: holds_def)
    have H: "holds w' u a \<longleftrightarrow> holds w u a" for u a
      using nh[of a] unfolding w' by (auto simp: holds_def)
    have sel: "heap w' = heap w" "next_addr w' = next_addr w" "log w' = log w"
      unfolding w' by simp_all
    show ?thesis
      using assms(1) unfolding consistent_def owned_def H sel by simp
  next
    case (Some a0)
    have hv: "holds w v a0"
      using live Some by (simp add: holds_def)
    with assms(1) obtain h where h: "heap w a0 = Some h"
      unfolding consistent_def by blast
    from File_dtor_owning[OF live Some h] assms(2)
    have w': "w' = w\<lparr>heap := (heap w)(a0 := None),
                log := log w @ [(a0, Closing (name h))],
                files := (files w)(v := None)\<rparr>" by simp
    have only: "holds w v a \<longleftrightarrow> a = a0" for a
      using live Some by (auto simp: holds_def)
    have uniq: "holds w u a0 \<longleftrightarrow> u = v" for u
      using assms(1) hv unfolding consistent_def by blast
    have H: "holds w' u a \<longleftrightarrow> u \<noteq> v \<and> holds w u a" for u a
      unfolding w' by (auto simp: holds_def)
    have own: "owned w' a \<longleftrightarrow> a \<noteq> a0 \<and> owned w a" for a
      unfolding owned_def H using only uniq by metis
    have own0: "owned w a0"
      using hv by (auto simp: owned_def)
    have sel: "heap w' = (heap w)(a0 := None)" "next_addr w' = next_addr w"
      "log w' = log w @ [(a0, Closing (name h))]"
      unfolding w' by simp_all
    have lt: "a0 < next_addr w"
      using assms(1) h unfolding consistent_def by simp
    have uq: "\<And>x y a. holds w x a \<Longrightarrow> holds w y a \<Longrightarrow> x = y"
      using assms(1) unfolding consistent_def by blast
    have alloc: "\<And>x a. holds w x a \<Longrightarrow> heap w a \<noteq> None"
      using assms(1) unfolding consistent_def by blast
    have "\<forall>x y a. holds w' x a \<longrightarrow> holds w' y a \<longrightarrow> x = y"
      unfolding H using uq by metis
    moreover have "\<forall>x a. holds w' x a \<longrightarrow> heap w' a \<noteq> None"
      unfolding H sel using alloc uniq by (metis fun_upd_apply)
    ultimately show ?thesis
      using assms(1) own0 lt unfolding consistent_def own sel
      by (auto simp: opens_snoc closes_snoc)
  qed
qed

lemma consistent_write:
  assumes "consistent w" "File_write v w = Returns w'"
  shows "consistent w'"
proof -
  from assms(2) obtain f a where live: "files w v = Some f" and fa: "fh f = Some a"
    by (auto simp: File_write_def split: option.splits)
  from assms(2) live fa obtain h where h: "heap w a = Some h"
    by (cases "heap w a") (auto simp: File_write_def invoke_def)
  from File_write_owning[OF live fa h] assms(2)
  have w': "w' = w\<lparr>heap := (heap w)(a \<mapsto> h), log := log w @ [(a, Writing (name h))]\<rparr>" by simp
  have H: "holds w' u b \<longleftrightarrow> holds w u b" for u b
    unfolding w' by (simp add: holds_def)
  have sel: "heap w' = (heap w)(a \<mapsto> h)" "next_addr w' = next_addr w"
      "log w' = log w @ [(a, Writing (name h))]"
    unfolding w' by simp_all
  show ?thesis
    using assms(1) h unfolding consistent_def owned_def H sel
    by (auto simp: opens_snoc closes_snoc)
qed

lemma consistent_move_assign:
  assumes "consistent w" "File_move_assign v u w = Returns w'"
  shows "consistent w'"
proof (cases "v = u")
  case True
  with assms show ?thesis by (simp add: File_move_assign_def)
next
  case False
  from assms(2) False obtain f where lv: "files w v = Some f"
    by (auto simp: File_move_assign_def split: option.splits)
  have lu: "\<exists>g. files w u = Some g"
  proof (cases "files w u")
    case None
    have "move_fh v u x = Undefined (NotLive u)" if "files x u = None" for x
      using that by (simp add: move_fh_def)
    moreover have "files x u = None" if "invoke m a w = Returns x" for m a x
      using that None by (auto simp: invoke_def split: option.splits sum.splits)
    ultimately show ?thesis
      using assms(2) False lv None
      by (auto simp: File_move_assign_def split: option.splits outcome.splits)
  qed simp
  then obtain g where lu: "files w u = Some g" ..
  show ?thesis
  proof (cases "fh f")
    case None
    from File_move_assign_empty[OF False lv lu None] assms(2)
    have w': "w' = w\<lparr>files := (files w)(u \<mapsto> \<lparr>fh = None\<rparr>, v \<mapsto> \<lparr>fh = fh g\<rparr>)\<rparr>" by simp
    have nh: "\<not> holds w v a" for a
      using lv None by (simp add: holds_def)
    have hu: "holds w u a \<longleftrightarrow> fh g = Some a" for a
      using lu by (simp add: holds_def)
    have H: "holds w' x a \<longleftrightarrow> (if x = v then holds w u a else x \<noteq> u \<and> holds w x a)" for x a
      unfolding w' using False lu by (auto simp: holds_def)
    have own: "owned w' a \<longleftrightarrow> owned w a" for a
      unfolding owned_def H using nh False by metis
    have sel: "heap w' = heap w" "next_addr w' = next_addr w" "log w' = log w"
      unfolding w' by simp_all
    have uniq: "\<And>x y a. holds w x a \<Longrightarrow> holds w y a \<Longrightarrow> x = y"
      using assms(1) unfolding consistent_def by blast
    have alloc: "\<And>x a. holds w x a \<Longrightarrow> heap w a \<noteq> None"
      using assms(1) unfolding consistent_def by blast
    have "\<forall>x y a. holds w' x a \<longrightarrow> holds w' y a \<longrightarrow> x = y"
      unfolding H using uniq by (metis (full_types))
    moreover have "\<forall>x a. holds w' x a \<longrightarrow> heap w' a \<noteq> None"
      unfolding H sel using alloc by (metis (full_types))
    ultimately show ?thesis
      using assms(1) unfolding consistent_def own sel by simp
  next
    case (Some a0)
    have hv: "holds w v a0"
      using lv Some by (simp add: holds_def)
    with assms(1) obtain h where h: "heap w a0 = Some h"
      unfolding consistent_def by blast
    from File_move_assign_owning[OF False lv lu Some h] assms(2)
    have w': "w' = w\<lparr>heap := (heap w)(a0 := None),
                log := log w @ [(a0, Closing (name h))],
                files := (files w)(u \<mapsto> \<lparr>fh = None\<rparr>, v \<mapsto> \<lparr>fh = fh g\<rparr>)\<rparr>" by simp
    have uniq: "\<And>x y a. holds w x a \<Longrightarrow> holds w y a \<Longrightarrow> x = y"
      using assms(1) unfolding consistent_def by blast
    have alloc: "\<And>x a. holds w x a \<Longrightarrow> heap w a \<noteq> None"
      using assms(1) unfolding consistent_def by blast
    have only: "holds w v a \<longleftrightarrow> a = a0" for a
      using lv Some by (auto simp: holds_def)
    have uniq0: "holds w x a0 \<longleftrightarrow> x = v" for x
      using uniq hv by blast
    have H: "holds w' x a \<longleftrightarrow> (if x = v then holds w u a else x \<noteq> u \<and> holds w x a)" for x a
      unfolding w' using False lu by (auto simp: holds_def)
    have own: "owned w' a \<longleftrightarrow> a \<noteq> a0 \<and> owned w a" for a
      unfolding owned_def H using only uniq0 False by metis
    have own0: "owned w a0"
      using hv by (auto simp: owned_def)
    have sel: "heap w' = (heap w)(a0 := None)" "next_addr w' = next_addr w"
      "log w' = log w @ [(a0, Closing (name h))]"
      unfolding w' by simp_all
    have lt: "a0 < next_addr w"
      using assms(1) h unfolding consistent_def by simp
    have "\<forall>x y a. holds w' x a \<longrightarrow> holds w' y a \<longrightarrow> x = y"
      unfolding H using uniq by (metis (full_types))
    moreover have "\<forall>x a. holds w' x a \<longrightarrow> heap w' a \<noteq> None"
      unfolding H sel using alloc uniq0 False by (metis (full_types) fun_upd_apply)
    ultimately show ?thesis
      using assms(1) own0 lt unfolding consistent_def own sel
      by (auto simp: opens_snoc closes_snoc)
  qed
qed

lemma consistent_world0: "consistent world0"
  by (simp add: consistent_def world0_def holds_def owned_def opens_def closes_def)

lemma consistent_move_ctor:
  assumes "consistent w" "File_move_ctor v u w = Returns w'"
  shows "consistent w'"
proof -
  from assms(2) have live: "files w v = None"
    by (auto simp: File_move_ctor_def split: option.splits)
  let ?w0 = "w\<lparr>files := (files w)(v \<mapsto> \<lparr>fh = None\<rparr>)\<rparr>"
  have H: "holds ?w0 x a \<longleftrightarrow> holds w x a" for x a
    using live by (auto simp: holds_def)
  have "consistent ?w0"
    using assms(1) unfolding consistent_def owned_def H by simp
  moreover have "File_move_assign v u ?w0 = Returns w'"
    using assms(2) live by (simp add: File_move_ctor_def)
  ultimately show ?thesis by (rule consistent_move_assign)
qed

lemma consistent_step: "consistent w \<Longrightarrow> step x w = Returns w' \<Longrightarrow> consistent w'"
  by (cases x)
     (auto intro: consistent_ctor consistent_move_ctor consistent_move_assign consistent_write
        consistent_dtor)

lemma consistent_run: "consistent w \<Longrightarrow> run xs w = Returns w' \<Longrightarrow> consistent w'"
proof (induction xs arbitrary: w)
  case Nil
  then show ?case by simp
next
  case (Cons x xs)
  from Cons.prems(2) obtain w1 where s: "step x w = Returns w1" and r: "run xs w1 = Returns w'"
    by (auto split: outcome.splits)
  from Cons.prems(1) s have "consistent w1" by (rule consistent_step)
  then show ?case using r by (rule Cons.IH)
qed

lemma reachable_consistent: "run xs world0 = Returns w \<Longrightarrow> consistent w"
  using consistent_world0 by (rule consistent_run)


section \<open>Runs, their prefixes, and which objects are alive\<close>

lemma run_append:
  "run (xs @ ys) w = (case run xs w of Returns w1 \<Rightarrow> run ys w1 | r \<Rightarrow> r)"
  by (induction xs arbitrary: w) (auto split: outcome.splits)

lemma run_prefix:
  assumes "run xs w = Returns w'"
  shows "\<exists>wk. run (take k xs) w = Returns wk"
proof -
  have "run (take k xs @ drop k xs) w = Returns w'"
    using assms by simp
  then show ?thesis
    unfolding run_append by (auto split: outcome.splits)
qed

lemma invoke_total_Returns:
  "invoke (total m) a w = Returns w' \<Longrightarrow> files w' = files w"
  by (auto simp: invoke_def total_def split: option.splits prod.splits)

lemma invoke_total_no_throw: "invoke (total m) a w \<noteq> Throws e w'"
  by (auto simp: invoke_def total_def split: option.splits prod.splits)

lemma File_ctor_no_throw: "File_ctor n v w \<noteq> Throws e w'"
  by (auto simp: File_ctor_def File_ctor_with_def Let_def invoke_total_no_throw
      split: option.splits outcome.splits)

lemma files_ctor:
  "File_ctor n v w = Returns w' \<Longrightarrow>
   files w v = None \<and> (\<forall>x. (files w' x = None) = (x \<noteq> v \<and> files w x = None))"
proof (cases "files w v")
  case None
  assume "File_ctor n v w = Returns w'"
  with File_ctor_fresh[OF None, of n] show ?thesis
    using None by auto
next
  case (Some f)
  assume "File_ctor n v w = Returns w'"
  with Some show ?thesis
    by (simp add: File_ctor_def File_ctor_with_def)
qed

lemma invoke_Returns_heap: "invoke m a w = Returns w' \<Longrightarrow> \<exists>h. heap w a = Some h"
  by (cases "heap w a") (simp_all add: invoke_def)

lemma files_dtor:
  assumes "File_dtor v w = Returns w'"
  shows "(files w' x = None) = (x = v \<or> files w x = None)"
proof -
  from assms obtain f where live: "files w v = Some f"
    by (cases "files w v") (simp_all add: File_dtor_def)
  show ?thesis
  proof (cases "fh f")
    case None
    from File_dtor_empty[OF live None] assms
    have "w' = w\<lparr>files := (files w)(v := None)\<rparr>" by simp
    then show ?thesis by simp
  next
    case (Some a)
    from assms live Some obtain w1 where "invoke (total FileHandle_close) a w = Returns w1"
      by (cases "invoke (total FileHandle_close) a w") (simp_all add: File_dtor_def)
    then obtain h where h: "heap w a = Some h"
      using invoke_Returns_heap by blast
    from File_dtor_owning[OF live Some h] assms
    have "files w' = (files w)(v := None)" by auto
    then show ?thesis by simp
  qed
qed

lemma files_write:
  assumes "File_write v w = Returns w'"
  shows "(files w' x = None) = (files w x = None)"
proof -
  from assms obtain f where live: "files w v = Some f"
    by (cases "files w v") (simp_all add: File_write_def)
  from assms live obtain a where fa: "fh f = Some a"
    by (cases "fh f") (simp_all add: File_write_def)
  from assms live fa have "invoke (total FileHandle_write) a w = Returns w'"
    by (simp add: File_write_def)
  from invoke_total_Returns[OF this] show ?thesis by simp
qed

lemma files_move_fh:
  assumes "move_fh v u w = Returns w'"
  shows "(files w' x = None) = (files w x = None)"
proof -
  from assms obtain g where lu: "files w u = Some g"
    by (cases "files w u") (simp_all add: move_fh_def)
  let ?w1 = "w\<lparr>files := (files w)(u \<mapsto> g\<lparr>fh := None\<rparr>)\<rparr>"
  from assms lu obtain f where lv: "files ?w1 v = Some f"
    by (cases "files ?w1 v") (simp_all add: move_fh_def Let_def)
  from assms lu lv
  have "files w' = (files ?w1)(v \<mapsto> f\<lparr>fh := fh g\<rparr>)"
    by (cases "fh f") (auto simp: move_fh_def Let_def delete_fh_def)
  then show ?thesis using lu lv by (auto split: if_splits)
qed

lemma files_move_assign:
  assumes "File_move_assign v u w = Returns w'"
  shows "(files w' x = None) = (files w x = None)"
proof (cases "v = u")
  case True
  with assms show ?thesis by (simp add: File_move_assign_def)
next
  case False
  from assms False obtain f where lv: "files w v = Some f"
    by (auto simp: File_move_assign_def split: option.splits)
  show ?thesis
  proof (cases "fh f")
    case None
    with assms False lv have "move_fh v u w = Returns w'"
      by (simp add: File_move_assign_def)
    then show ?thesis by (rule files_move_fh)
  next
    case (Some a)
    with assms False lv obtain w1 where c: "invoke (total FileHandle_close) a w = Returns w1"
      and m: "move_fh v u w1 = Returns w'"
      by (auto simp: File_move_assign_def split: outcome.splits)
    from files_move_fh[OF m, of x] invoke_total_Returns[OF c] show ?thesis by simp
  qed
qed

lemma files_move_ctor:
  assumes "File_move_ctor v u w = Returns w'"
  shows "files w v = None \<and> (\<forall>x. (files w' x = None) = (x \<noteq> v \<and> files w x = None))"
proof -
  from assms have live: "files w v = None"
    by (auto simp: File_move_ctor_def split: option.splits)
  with assms have "File_move_assign v u (w\<lparr>files := (files w)(v \<mapsto> \<lparr>fh = None\<rparr>)\<rparr>) = Returns w'"
    by (simp add: File_move_ctor_def)
  from files_move_assign[OF this] live show ?thesis by auto
qed

lemma files_destroy_all:
  "run (map Destroy ls) w = Returns w' \<Longrightarrow>
   (files w' x = None) = (x \<in> set ls \<or> files w x = None)"
proof (induction ls arbitrary: w)
  case Nil
  then show ?case by simp
next
  case (Cons v ls)
  from Cons.prems obtain w1 where s: "File_dtor v w = Returns w1"
    and r: "run (map Destroy ls) w1 = Returns w'"
    by (auto split: outcome.splits)
  from Cons.IH[OF r] files_dtor[OF s, of x] show ?case by auto
qed

lemma run_Cons_Returns:
  "run (x # xs) w = Returns w' \<Longrightarrow> \<exists>w1. step x w = Returns w1 \<and> run xs w1 = Returns w'"
  by (cases "step x w") simp_all

lemma files_scope:
  "run (scope_ops ls ss) w = Returns w' \<Longrightarrow>
   (files w' x = None) = (x \<in> set ls \<or> files w x = None)"
proof (induction ss arbitrary: ls w)
  case Nil
  then have "run (map Destroy ls) w = Returns w'" by simp
  then show ?case by (rule files_destroy_all)
next
  case (Cons s ss)
  show ?case
  proof (cases s)
    case (Decl v n)
    with Cons.prems have "run (Construct v n # scope_ops (v # ls) ss) w = Returns w'" by simp
    from run_Cons_Returns[OF this] obtain w1 where s: "File_ctor n v w = Returns w1"
      and r: "run (scope_ops (v # ls) ss) w1 = Returns w'" by auto
    have a: "(files w' x = None) = (x \<in> set (v # ls) \<or> files w1 x = None)"
      using r by (rule Cons.IH)
    from files_ctor[OF s] have b: "files w v = None" "(files w1 x = None) = (x \<noteq> v \<and> files w x = None)"
      by blast+
    show ?thesis unfolding a b using b(1) by auto
  next
    case (DeclMove v u)
    with Cons.prems have "run (MoveConstruct v u # scope_ops (v # ls) ss) w = Returns w'" by simp
    from run_Cons_Returns[OF this] obtain w1 where s: "File_move_ctor v u w = Returns w1"
      and r: "run (scope_ops (v # ls) ss) w1 = Returns w'" by auto
    have a: "(files w' x = None) = (x \<in> set (v # ls) \<or> files w1 x = None)"
      using r by (rule Cons.IH)
    from files_move_ctor[OF s] have b: "files w v = None" "(files w1 x = None) = (x \<noteq> v \<and> files w x = None)"
      by blast+
    show ?thesis unfolding a b using b(1) by auto
  next
    case (Assign v u)
    with Cons.prems have "run (MoveAssign v u # scope_ops ls ss) w = Returns w'" by simp
    from run_Cons_Returns[OF this] obtain w1 where s: "File_move_assign v u w = Returns w1"
      and r: "run (scope_ops ls ss) w1 = Returns w'" by auto
    have a: "(files w' x = None) = (x \<in> set ls \<or> files w1 x = None)"
      using r by (rule Cons.IH)
    show ?thesis unfolding a files_move_assign[OF s, of x] ..
  next
    case (Use v)
    with Cons.prems have "run (WriteTo v # scope_ops ls ss) w = Returns w'" by simp
    from run_Cons_Returns[OF this] obtain w1 where s: "File_write v w = Returns w1"
      and r: "run (scope_ops ls ss) w1 = Returns w'" by auto
    have a: "(files w' x = None) = (x \<in> set ls \<or> files w1 x = None)"
      using r by (rule Cons.IH)
    show ?thesis unfolding a files_write[OF s, of x] ..
  next
    case Return
    with Cons.prems have "run (map Destroy ls) w = Returns w'" by simp
    then show ?thesis by (rule files_destroy_all)
  next
    case Throw
    with Cons.prems have "run (map Destroy ls) w = Returns w'" by simp
    then show ?thesis by (rule files_destroy_all)
  qed
qed

lemma scope_from_world0:
  assumes "run (scope_ops [] ss) world0 = Returns w"
  shows "files w x = None"
  using files_scope[OF assms, of x] by (simp add: world0_def)

section \<open>Evaluation and small facts\<close>

lemmas exec_defs =
  File_ctor_def File_ctor_with_def File_dtor_def File_move_assign_def File_move_ctor_def
  File_write_def move_fh_def delete_fh_def invoke_def total_def world0_def Let_def
  FileHandle_new_def FileHandle_open_def FileHandle_close_def FileHandle_write_def

lemma FileHandle_update [simp]: "(h::FileHandle)\<lparr>name := x\<rparr> = \<lparr>name = x\<rparr>"
  by (cases h) simp

lemma FileHandle_calls_length: "length (snd (FileHandle_calls cs h)) = length cs"
proof (induction cs arbitrary: h)
  case Nil
  show ?case by simp
next
  case (Cons c cs)
  obtain h1 e where c: "FileHandle_call c h = (h1, e)" by (cases "FileHandle_call c h")
  obtain h2 es where r: "FileHandle_calls cs h1 = (h2, es)" by (cases "FileHandle_calls cs h1")
  from Cons.IH[of h1] r have "length es = length cs" by simp
  with c r show ?case by simp
qed

section \<open>What a returning operation did\<close>

lemma File_move_assign_Returns [consumes 2, case_names empty owning]:
  assumes "File_move_assign v u w = Returns w'" and "v \<noteq> u"
  obtains f g where "files w v = Some f" "files w u = Some g" "fh f = None"
      "w' = w\<lparr>files := (files w)(u \<mapsto> \<lparr>fh = None\<rparr>, v \<mapsto> \<lparr>fh = fh g\<rparr>)\<rparr>"
  | f g a h where "files w v = Some f" "files w u = Some g" "fh f = Some a" "heap w a = Some h"
      "w' = w\<lparr>heap := (heap w)(a := None),
               log := log w @ [(a, Closing (name h))],
               files := (files w)(u \<mapsto> \<lparr>fh = None\<rparr>, v \<mapsto> \<lparr>fh = fh g\<rparr>)\<rparr>"
proof -
  from assms obtain f where lv: "files w v = Some f"
    by (cases "files w v") (simp_all add: File_move_assign_def)
  show ?thesis
  proof (cases "fh f")
    case None
    with assms lv have m: "move_fh v u w = Returns w'"
      by (simp add: File_move_assign_def)
    then obtain g where lu: "files w u = Some g"
      by (cases "files w u") (simp_all add: move_fh_def)
    from File_move_assign_empty[OF assms(2) lv lu None] assms(1)
    have "w' = w\<lparr>files := (files w)(u \<mapsto> \<lparr>fh = None\<rparr>, v \<mapsto> \<lparr>fh = fh g\<rparr>)\<rparr>" by simp
    with lv lu None show ?thesis by (rule that(1))
  next
    case (Some a)
    with assms lv obtain w1 where c: "invoke (total FileHandle_close) a w = Returns w1"
      and m: "move_fh v u w1 = Returns w'"
      by (cases "invoke (total FileHandle_close) a w") (simp_all add: File_move_assign_def)
    from c obtain h where h: "heap w a = Some h"
      using invoke_Returns_heap by blast
    from m obtain g where "files w1 u = Some g"
      by (cases "files w1 u") (simp_all add: move_fh_def)
    with invoke_total_Returns[OF c] have lu: "files w u = Some g" by simp
    from File_move_assign_owning[OF assms(2) lv lu Some h] assms(1)
    have "w' = w\<lparr>heap := (heap w)(a := None),
               log := log w @ [(a, Closing (name h))],
               files := (files w)(u \<mapsto> \<lparr>fh = None\<rparr>, v \<mapsto> \<lparr>fh = fh g\<rparr>)\<rparr>" by simp
    with lv lu Some h show ?thesis by (rule that(2))
  qed
qed

lemma File_move_assign_log:
  assumes "File_move_assign v u w = Returns w'"
  shows "\<exists>es. log w' = log w @ es \<and> length es \<le> 1 \<and> (\<forall>e\<in>set es. is_close (snd e))"
proof (cases "v = u")
  case True
  with assms show ?thesis by (simp add: File_move_assign_def)
next
  case False
  with assms show ?thesis
    by (cases rule: File_move_assign_Returns) simp_all
qed

lemma holds_move_assign:
  assumes "File_move_assign v u w = Returns w'" and "v \<noteq> u"
  shows "holds w' x a \<longleftrightarrow> (if x = v then holds w u a else x \<noteq> u \<and> holds w x a)"
  using assms
proof (cases rule: File_move_assign_Returns)
  case (empty f g)
  then show ?thesis using assms(2) by (auto simp: holds_def)
next
  case (owning f g a h)
  then show ?thesis using assms(2) by (auto simp: holds_def)
qed

lemma consistent_holds_heap: "consistent w \<Longrightarrow> holds w v a \<Longrightarrow> \<exists>h. heap w a = Some h"
  unfolding consistent_def by blast

lemma consistent_unique: "consistent w \<Longrightarrow> holds w v a \<Longrightarrow> holds w v' a \<Longrightarrow> v = v'"
  unfolding consistent_def by blast

lemma move_assign_result:
  assumes "consistent w" "v \<noteq> u" "files w v = Some f" "files w u = Some g"
  shows "\<exists>w'. File_move_assign v u w = Returns w'
           \<and> files w' v = Some \<lparr>fh = fh g\<rparr> \<and> files w' u = Some \<lparr>fh = None\<rparr>"
proof (cases "fh f")
  case None
  from File_move_assign_empty[OF assms(2,3,4) None] assms(2) show ?thesis by simp
next
  case (Some a)
  with assms(3) have "holds w v a" by (simp add: holds_def)
  with assms(1) obtain h where h: "heap w a = Some h"
    using consistent_holds_heap by blast
  from File_move_assign_owning[OF assms(2,3,4) Some h] assms(2) show ?thesis by simp
qed

lemma move_ctor_result:
  assumes "consistent w" "files w v = None" "files w u = Some g"
  shows "\<exists>w'. File_move_ctor v u w = Returns w'
           \<and> files w' v = Some \<lparr>fh = fh g\<rparr> \<and> files w' u = Some \<lparr>fh = None\<rparr>
           \<and> log w' = log w"
proof -
  from assms(2,3) have ne: "v \<noteq> u" by auto
  let ?w0 = "w\<lparr>files := (files w)(v \<mapsto> \<lparr>fh = None\<rparr>)\<rparr>"
  have a: "files ?w0 v = Some \<lparr>fh = None\<rparr>" by simp
  have b: "files ?w0 u = Some g" using assms(3) ne by simp
  have "File_move_ctor v u w = File_move_assign v u ?w0"
    using assms(2) by (simp add: File_move_ctor_def)
  with File_move_assign_empty[OF ne a b] ne show ?thesis by simp
qed

lemma File_dtor_Returns [consumes 1, case_names empty owning]:
  assumes "File_dtor v w = Returns w'"
  obtains f where "files w v = Some f" "fh f = None" "w' = w\<lparr>files := (files w)(v := None)\<rparr>"
  | f a h where "files w v = Some f" "fh f = Some a" "heap w a = Some h"
      "w' = w\<lparr>heap := (heap w)(a := None),
               log := log w @ [(a, Closing (name h))],
               files := (files w)(v := None)\<rparr>"
proof -
  from assms obtain f where live: "files w v = Some f"
    by (cases "files w v") (simp_all add: File_dtor_def)
  show ?thesis
  proof (cases "fh f")
    case None
    from File_dtor_empty[OF live None] assms
    have "w' = w\<lparr>files := (files w)(v := None)\<rparr>" by simp
    with live None show ?thesis by (rule that(1))
  next
    case (Some a)
    from assms live Some obtain w1 where "invoke (total FileHandle_close) a w = Returns w1"
      by (cases "invoke (total FileHandle_close) a w") (simp_all add: File_dtor_def)
    then obtain h where h: "heap w a = Some h"
      using invoke_Returns_heap by blast
    from File_dtor_owning[OF live Some h] assms
    have "w' = w\<lparr>heap := (heap w)(a := None),
               log := log w @ [(a, Closing (name h))],
               files := (files w)(v := None)\<rparr>" by simp
    with live Some h show ?thesis by (rule that(2))
  qed
qed

lemma consistent_counts:
  assumes "consistent w"
  shows "opens a (log w) \<le> 1"
    and "closes a (log w) = (if opens a (log w) = 1 \<and> \<not> owned w a then 1 else 0)"
    and "owned w a \<Longrightarrow> opens a (log w) = 1"
proof -
  from assms have o: "opens a (log w) = (if a < next_addr w then 1 else 0)"
    and c: "closes a (log w) = (if a < next_addr w \<and> \<not> owned w a then 1 else 0)"
    unfolding consistent_def by blast+
  show "opens a (log w) \<le> 1" using o by simp
  show "closes a (log w) = (if opens a (log w) = 1 \<and> \<not> owned w a then 1 else 0)"
    using o c by simp
  assume "owned w a"
  then obtain v where "holds w v a" unfolding owned_def ..
  with assms obtain h where "heap w a = Some h" using consistent_holds_heap by blast
  with assms have "a < next_addr w" unfolding consistent_def by simp
  with o show "opens a (log w) = 1" by simp
qed

lemma dtor_owning_result:
  assumes "consistent w" "files w v = Some f" "fh f = Some a"
  shows "\<exists>h w'. heap w a = Some h \<and> File_dtor v w = Returns w'
           \<and> log w' = log w @ [(a, Closing (name h))]
           \<and> files w' = (files w)(v := None)
           \<and> closes a (log w) = 0 \<and> closes a (log w') = 1"
proof -
  from assms(2,3) have hv: "holds w v a" by (simp add: holds_def)
  with assms(1) obtain h where h: "heap w a = Some h"
    using consistent_holds_heap by blast
  have "owned w a" using hv by (auto simp: owned_def)
  with consistent_counts(2)[OF assms(1), of a] have c0: "closes a (log w) = 0" by simp
  from File_dtor_owning[OF assms(2,3) h] h c0 show ?thesis
    by (simp add: closes_snoc)
qed

section \<open>An address no \<open>File\<close> holds is never closed\<close>

lemma unowned_ctor:
  assumes "\<not> owned w a" "a < next_addr w" "File_ctor n v w = Returns w'"
  shows "\<not> owned w' a \<and> a < next_addr w' \<and> closes a (log w') = closes a (log w)"
proof -
  from files_ctor[OF assms(3)] have live: "files w v = None" by blast
  from File_ctor_fresh[OF live, of n] assms(3)
  have w': "w' = w\<lparr>heap := (heap w)(next_addr w \<mapsto> \<lparr>name = n\<rparr>),
                next_addr := Suc (next_addr w),
                log := log w @ [(next_addr w, Opening n)],
                files := (files w)(v \<mapsto> \<lparr>fh = Some (next_addr w)\<rparr>)\<rparr>" by simp
  have "holds w' x a \<Longrightarrow> holds w x a" for x
    using assms(2) unfolding w' by (auto simp: holds_def split: if_splits)
  then have "\<not> owned w' a" using assms(1) unfolding owned_def by blast
  moreover have "a < next_addr w'" "closes a (log w') = closes a (log w)"
    using assms(2) unfolding w' by (simp_all add: closes_snoc)
  ultimately show ?thesis by simp
qed

lemma unowned_dtor:
  assumes "\<not> owned w a" "a < next_addr w" "File_dtor v w = Returns w'"
  shows "\<not> owned w' a \<and> a < next_addr w' \<and> closes a (log w') = closes a (log w)"
  using assms(3)
proof (cases rule: File_dtor_Returns)
  case (empty f)
  have "holds w' x a \<Longrightarrow> holds w x a" for x
    unfolding empty(3) by (auto simp: holds_def split: if_splits)
  then have "\<not> owned w' a" using assms(1) unfolding owned_def by blast
  then show ?thesis using assms(2) unfolding empty(3) by simp
next
  case (owning f a0 h)
  have "holds w v a0" using owning(1,2) by (simp add: holds_def)
  with assms(1) have ne: "a0 \<noteq> a" unfolding owned_def by blast
  have "holds w' x a \<Longrightarrow> holds w x a" for x
    unfolding owning(4) by (auto simp: holds_def split: if_splits)
  then have "\<not> owned w' a" using assms(1) unfolding owned_def by blast
  moreover have "a < next_addr w'" "closes a (log w') = closes a (log w)"
    using assms(2) ne unfolding owning(4) by (simp_all add: closes_snoc)
  ultimately show ?thesis by simp
qed

lemma unowned_write:
  assumes "\<not> owned w a" "a < next_addr w" "File_write v w = Returns w'"
  shows "\<not> owned w' a \<and> a < next_addr w' \<and> closes a (log w') = closes a (log w)"
proof -
  from assms(3) obtain f where live: "files w v = Some f"
    by (cases "files w v") (simp_all add: File_write_def)
  from assms(3) live obtain b where fb: "fh f = Some b"
    by (cases "fh f") (simp_all add: File_write_def)
  from assms(3) live fb have i: "invoke (total FileHandle_write) b w = Returns w'"
    by (simp add: File_write_def)
  then obtain h where h: "heap w b = Some h"
    using invoke_Returns_heap by blast
  from File_write_owning[OF live fb h] assms(3)
  have w': "w' = w\<lparr>heap := (heap w)(b \<mapsto> h), log := log w @ [(b, Writing (name h))]\<rparr>" by simp
  have "holds w' x a \<longleftrightarrow> holds w x a" for x
    unfolding w' by (simp add: holds_def)
  then have "\<not> owned w' a" using assms(1) unfolding owned_def by blast
  then show ?thesis using assms(2) unfolding w' by (simp add: closes_snoc)
qed

lemma unowned_move_assign:
  assumes "\<not> owned w a" "a < next_addr w" "File_move_assign v u w = Returns w'"
  shows "\<not> owned w' a \<and> a < next_addr w' \<and> closes a (log w') = closes a (log w)"
proof (cases "v = u")
  case True
  with assms show ?thesis by (simp add: File_move_assign_def)
next
  case False
  have "holds w' x a \<Longrightarrow> owned w a" for x
    unfolding holds_move_assign[OF assms(3) False] owned_def by (auto split: if_splits)
  then have no: "\<not> owned w' a" using assms(1) unfolding owned_def by blast
  from assms(3) False show ?thesis
  proof (cases rule: File_move_assign_Returns)
    case (empty f g)
    with no assms(2) show ?thesis by simp
  next
    case (owning f g a0 h)
    have "holds w v a0" using owning(1,3) by (simp add: holds_def)
    with assms(1) have ne: "a0 \<noteq> a" unfolding owned_def by blast
    have "a < next_addr w'" "closes a (log w') = closes a (log w)"
      using assms(2) ne unfolding owning(5) by (simp_all add: closes_snoc)
    with no show ?thesis by simp
  qed
qed

lemma unowned_move_ctor:
  assumes "\<not> owned w a" "a < next_addr w" "File_move_ctor v u w = Returns w'"
  shows "\<not> owned w' a \<and> a < next_addr w' \<and> closes a (log w') = closes a (log w)"
proof -
  from files_move_ctor[OF assms(3)] have live: "files w v = None" by blast
  let ?w0 = "w\<lparr>files := (files w)(v \<mapsto> \<lparr>fh = None\<rparr>)\<rparr>"
  have H: "holds ?w0 x b \<longleftrightarrow> holds w x b" for x b
    using live by (auto simp: holds_def)
  have a: "\<not> owned ?w0 a" using assms(1) unfolding owned_def H .
  have b: "a < next_addr ?w0" using assms(2) by simp
  have m: "File_move_assign v u ?w0 = Returns w'"
    using assms(3) live by (simp add: File_move_ctor_def)
  from unowned_move_assign[OF a b m] show ?thesis by simp
qed

lemma unowned_step:
  assumes "\<not> owned w a" "a < next_addr w" "step x w = Returns w'"
  shows "\<not> owned w' a \<and> a < next_addr w' \<and> closes a (log w') = closes a (log w)"
proof (cases x)
  case (Construct v n)
  with assms(3) have "File_ctor n v w = Returns w'" by simp
  with assms(1,2) show ?thesis by (rule unowned_ctor)
next
  case (MoveConstruct v u)
  with assms(3) have "File_move_ctor v u w = Returns w'" by simp
  with assms(1,2) show ?thesis by (rule unowned_move_ctor)
next
  case (MoveAssign v u)
  with assms(3) have "File_move_assign v u w = Returns w'" by simp
  with assms(1,2) show ?thesis by (rule unowned_move_assign)
next
  case (WriteTo v)
  with assms(3) have "File_write v w = Returns w'" by simp
  with assms(1,2) show ?thesis by (rule unowned_write)
next
  case (Destroy v)
  with assms(3) have "File_dtor v w = Returns w'" by simp
  with assms(1,2) show ?thesis by (rule unowned_dtor)
qed

lemma unowned_run:
  "\<not> owned w a \<Longrightarrow> a < next_addr w \<Longrightarrow> run xs w = Returns w' \<Longrightarrow>
   \<not> owned w' a \<and> closes a (log w') = closes a (log w)"
proof (induction xs arbitrary: w)
  case Nil
  then show ?case by simp
next
  case (Cons x xs)
  from run_Cons_Returns[OF Cons.prems(3)] obtain w1 where s: "step x w = Returns w1"
    and r: "run xs w1 = Returns w'" by blast
  from unowned_step[OF Cons.prems(1,2) s]
  have a: "\<not> owned w1 a" "a < next_addr w1" "closes a (log w1) = closes a (log w)" by simp_all
  from Cons.IH[OF a(1,2) r] a(3) show ?case by simp
qed


section \<open>The claims\<close>

text \<open>
  Claim C1. In every world reached from the empty one by constructions, transfers, writes
  and destructions, each \<open>FileHandle\<close> has been opened at most once, and one that has
  been opened has been closed not at all while a live \<open>File\<close> holds it and exactly once
  when none does; a \<open>File\<close> holds only an opened \<open>FileHandle\<close>. The destructor of an
  Empty \<open>File\<close> only removes the object (no call is logged); the destructor of an Owning
  \<open>File\<close> logs exactly one call, \<open>close\<close> on the \<open>FileHandle\<close> it holds, which had not
  been closed before. Once no \<open>File\<close> is alive, every \<open>FileHandle\<close> has as many closes
  as opens. A block run from the empty world leaves no \<open>File\<close> alive, whether it is left
  at its end, by \<open>return\<close> or by \<open>throw\<close>, so every resource it opened is closed exactly
  once.
\<close>

theorem closed_exactly_once:
  assumes "run ops world0 = Returns w"
  shows "(\<forall>a. opens a (log w) \<le> 1
              \<and> closes a (log w) = (if opens a (log w) = 1 \<and> \<not> owned w a then 1 else 0)
              \<and> (owned w a \<longrightarrow> opens a (log w) = 1))
       \<and> (\<forall>v f. files w v = Some f \<longrightarrow> fh f = None \<longrightarrow>
              File_dtor v w = Returns (w\<lparr>files := (files w)(v := None)\<rparr>))
       \<and> (\<forall>v f a. files w v = Some f \<longrightarrow> fh f = Some a \<longrightarrow>
              (\<exists>h w'. heap w a = Some h \<and> File_dtor v w = Returns w'
                 \<and> log w' = log w @ [(a, Closing (name h))]
                 \<and> files w' = (files w)(v := None)
                 \<and> closes a (log w) = 0 \<and> closes a (log w') = 1))
       \<and> ((\<forall>x. files w x = None) \<longrightarrow> (\<forall>a. closes a (log w) = opens a (log w)))
       \<and> (\<forall>ss. ops = scope_ops [] ss \<longrightarrow>
              (\<forall>x. files w x = None) \<and> (\<forall>a. closes a (log w) = opens a (log w)))"
proof -
  from assms have c: "consistent w" by (rule reachable_consistent)
  have 1: "\<forall>a. opens a (log w) \<le> 1
              \<and> closes a (log w) = (if opens a (log w) = 1 \<and> \<not> owned w a then 1 else 0)
              \<and> (owned w a \<longrightarrow> opens a (log w) = 1)"
    using consistent_counts[OF c] by blast
  have 2: "\<forall>v f. files w v = Some f \<longrightarrow> fh f = None \<longrightarrow>
              File_dtor v w = Returns (w\<lparr>files := (files w)(v := None)\<rparr>)"
    using File_dtor_empty by blast
  have 3: "\<forall>v f a. files w v = Some f \<longrightarrow> fh f = Some a \<longrightarrow>
              (\<exists>h w'. heap w a = Some h \<and> File_dtor v w = Returns w'
                 \<and> log w' = log w @ [(a, Closing (name h))]
                 \<and> files w' = (files w)(v := None)
                 \<and> closes a (log w) = 0 \<and> closes a (log w') = 1)"
    using dtor_owning_result[OF c] by blast
  have 4: "\<forall>a. closes a (log w) = opens a (log w)" if "\<forall>x. files w x = None"
  proof
    fix a
    from that have "\<not> owned w a" by (simp add: owned_def holds_def)
    with consistent_counts(1,2)[OF c, of a] show "closes a (log w) = opens a (log w)"
      by (cases "opens a (log w) = 1") auto
  qed
  have 5: "\<forall>x. files w x = None" if "ops = scope_ops [] ss" for ss
    using assms that scope_from_world0 by blast
  from 1 2 3 4 5 show ?thesis by blast
qed

theorem closed_exactly_once_witness:
  "(\<exists>w. run (scope_ops [] main_raii_block) world0 = Returns w
      \<and> log w = [(0, Opening ''foo (file)''), (1, Opening ''bar (file)''),
                 (1, Writing ''bar (file)''), (0, Writing ''foo (file)''),
                 (0, Closing ''foo (file)''), (1, Writing ''bar (file)''),
                 (1, Closing ''bar (file)'')]
      \<and> (\<forall>x. files w x = None) \<and> (\<forall>a. closes a (log w) = opens a (log w))
      \<and> closes 0 (log w) = 1 \<and> closes 1 (log w) = 1)
   \<and> (\<exists>w. run (scope_ops [] main_try_block) world0 = Returns w
      \<and> log w = [(0, Opening ''foo (exception)''), (0, Closing ''foo (exception)'')]
      \<and> (\<forall>x. files w x = None) \<and> (\<forall>a. closes a (log w) = opens a (log w)))
   \<and> (\<exists>w. run [Construct 0 ''foo'', MoveConstruct 1 0] world0 = Returns w
      \<and> files w 0 = Some \<lparr>fh = None\<rparr> \<and> files w 1 = Some \<lparr>fh = Some 0\<rparr>
      \<and> File_dtor 0 w = Returns (w\<lparr>files := (files w)(0 := None)\<rparr>)
      \<and> (\<exists>w'. File_dtor 1 w = Returns w' \<and> log w' = log w @ [(0, Closing ''foo'')]))"
proof -
  obtain w1 where r1: "run (scope_ops [] main_raii_block) world0 = Returns w1"
    and l1: "log w1 = [(0, Opening ''foo (file)''), (1, Opening ''bar (file)''),
                 (1, Writing ''bar (file)''), (0, Writing ''foo (file)''),
                 (0, Closing ''foo (file)''), (1, Writing ''bar (file)''),
                 (1, Closing ''bar (file)'')]"
    by (simp add: main_raii_block_def exec_defs)
  note t1 = closed_exactly_once [OF r1, THEN conjunct2, THEN conjunct2, THEN conjunct2,
      THEN conjunct2, rule_format, OF refl]
  have c1: "closes 0 (log w1) = 1 \<and> closes 1 (log w1) = 1"
    unfolding l1 by (simp add: closes_def)
  obtain w2 where r2: "run (scope_ops [] main_try_block) world0 = Returns w2"
    and l2: "log w2 = [(0, Opening ''foo (exception)''), (0, Closing ''foo (exception)'')]"
    by (simp add: main_try_block_def exec_defs)
  note t2 = closed_exactly_once [OF r2, THEN conjunct2, THEN conjunct2, THEN conjunct2,
      THEN conjunct2, rule_format, OF refl]
  obtain w3 where r3: "run [Construct 0 ''foo'', MoveConstruct 1 0] world0 = Returns w3"
    and f0: "files w3 0 = Some \<lparr>fh = None\<rparr>" and f1: "files w3 1 = Some \<lparr>fh = Some 0\<rparr>"
    and h3: "heap w3 0 = Some \<lparr>name = ''foo''\<rparr>"
    by (simp add: exec_defs)
  have e: "fh \<lparr>fh = None :: nat option\<rparr> = None" and o: "fh \<lparr>fh = Some (0::nat)\<rparr> = Some 0" by simp_all
  note t3 = closed_exactly_once [OF r3, THEN conjunct2, THEN conjunct1, rule_format, OF f0 e]
  from closed_exactly_once [OF r3, THEN conjunct2, THEN conjunct2, THEN conjunct1, rule_format, OF f1 o] h3
  have t4: "\<exists>w'. File_dtor 1 w3 = Returns w' \<and> log w' = log w3 @ [(0, Closing ''foo'')]"
    by clarsimp
  from r1 l1 t1 c1 have A: "\<exists>w. run (scope_ops [] main_raii_block) world0 = Returns w
      \<and> log w = [(0, Opening ''foo (file)''), (1, Opening ''bar (file)''),
                 (1, Writing ''bar (file)''), (0, Writing ''foo (file)''),
                 (0, Closing ''foo (file)''), (1, Writing ''bar (file)''),
                 (1, Closing ''bar (file)'')]
      \<and> (\<forall>x. files w x = None) \<and> (\<forall>a. closes a (log w) = opens a (log w))
      \<and> closes 0 (log w) = 1 \<and> closes 1 (log w) = 1" by blast
  from r2 l2 t2 have B: "\<exists>w. run (scope_ops [] main_try_block) world0 = Returns w
      \<and> log w = [(0, Opening ''foo (exception)''), (0, Closing ''foo (exception)'')]
      \<and> (\<forall>x. files w x = None) \<and> (\<forall>a. closes a (log w) = opens a (log w))" by blast
  from r3 f0 f1 t3 t4 have C: "\<exists>w. run [Construct 0 ''foo'', MoveConstruct 1 0] world0 = Returns w
      \<and> files w 0 = Some \<lparr>fh = None\<rparr> \<and> files w 1 = Some \<lparr>fh = Some 0\<rparr>
      \<and> File_dtor 0 w = Returns (w\<lparr>files := (files w)(0 := None)\<rparr>)
      \<and> (\<exists>w'. File_dtor 1 w = Returns w' \<and> log w' = log w @ [(0, Closing ''foo'')])" by blast
  from A B C show ?thesis by blast
qed


text \<open>
  Claim C2. In every reachable world, moving a live \<open>File\<close> \<open>other\<close> into a distinct live
  \<open>File\<close> (move assignment) or into a new one (move construction) returns, the target
  then holds what \<open>other\<close> held (a \<open>FileHandle\<close> or nothing) and \<open>other\<close> holds
  nothing. Scenario, for distinct objects \<open>A\<close> and \<open>B\<close>: construct \<open>A\<close>, move-construct
  \<open>B\<close> from \<open>A\<close>, destroy \<open>A\<close>: the log holds the \<open>open\<close> only; then destroying \<open>B\<close>
  adds one \<open>close\<close>, on the \<open>FileHandle\<close> that \<open>A\<close> opened.
\<close>

theorem transfer_adopts_and_empties:
  assumes "run ops world0 = Returns w" and "files w other = Some g"
  shows "(\<forall>this f. this \<noteq> other \<longrightarrow> files w this = Some f \<longrightarrow>
            (\<exists>w'. File_move_assign this other w = Returns w'
               \<and> files w' this = Some \<lparr>fh = fh g\<rparr> \<and> files w' other = Some \<lparr>fh = None\<rparr>))
       \<and> (\<forall>this. files w this = None \<longrightarrow>
            (\<exists>w'. File_move_ctor this other w = Returns w'
               \<and> files w' this = Some \<lparr>fh = fh g\<rparr> \<and> files w' other = Some \<lparr>fh = None\<rparr>
               \<and> log w' = log w))
       \<and> (\<forall>A B n. A \<noteq> B \<longrightarrow>
            (\<exists>w1 w2. run [Construct A n, MoveConstruct B A, Destroy A] world0 = Returns w1
               \<and> log w1 = [(0, Opening n)]
               \<and> files w1 A = None \<and> files w1 B = Some \<lparr>fh = Some 0\<rparr>
               \<and> run [Construct A n, MoveConstruct B A, Destroy A, Destroy B] world0 = Returns w2
               \<and> log w2 = [(0, Opening n), (0, Closing n)]
               \<and> files w2 A = None \<and> files w2 B = None))"
proof -
  from assms(1) have c: "consistent w" by (rule reachable_consistent)
  have 1: "\<forall>this f. this \<noteq> other \<longrightarrow> files w this = Some f \<longrightarrow>
            (\<exists>w'. File_move_assign this other w = Returns w'
               \<and> files w' this = Some \<lparr>fh = fh g\<rparr> \<and> files w' other = Some \<lparr>fh = None\<rparr>)"
    using move_assign_result[OF c _ _ assms(2)] by blast
  have 2: "\<forall>this. files w this = None \<longrightarrow>
            (\<exists>w'. File_move_ctor this other w = Returns w'
               \<and> files w' this = Some \<lparr>fh = fh g\<rparr> \<and> files w' other = Some \<lparr>fh = None\<rparr>
               \<and> log w' = log w)"
    using move_ctor_result[OF c _ assms(2)] by blast
  have 3: "\<forall>A B n. A \<noteq> B \<longrightarrow>
            (\<exists>w1 w2. run [Construct A n, MoveConstruct B A, Destroy A] world0 = Returns w1
               \<and> log w1 = [(0, Opening n)]
               \<and> files w1 A = None \<and> files w1 B = Some \<lparr>fh = Some 0\<rparr>
               \<and> run [Construct A n, MoveConstruct B A, Destroy A, Destroy B] world0 = Returns w2
               \<and> log w2 = [(0, Opening n), (0, Closing n)]
               \<and> files w2 A = None \<and> files w2 B = None)"
    by (simp add: exec_defs)
  from 1 2 3 show ?thesis by blast
qed

theorem transfer_adopts_and_empties_witness:
  "(\<exists>w g. run [Construct 0 ''foo'', Construct 1 ''bar''] world0 = Returns w
      \<and> files w 0 = Some g \<and> fh g = Some 0
      \<and> (\<exists>w'. File_move_assign 1 0 w = Returns w'
            \<and> files w' 1 = Some \<lparr>fh = Some 0\<rparr> \<and> files w' 0 = Some \<lparr>fh = None\<rparr>)
      \<and> (\<exists>w'. File_move_ctor 2 0 w = Returns w'
            \<and> files w' 2 = Some \<lparr>fh = Some 0\<rparr> \<and> files w' 0 = Some \<lparr>fh = None\<rparr>))
   \<and> (\<exists>w2. run [Construct 0 ''foo'', MoveConstruct 1 0, Destroy 0, Destroy 1] world0 = Returns w2
         \<and> log w2 = [(0, Opening ''foo''), (0, Closing ''foo'')])"
proof -
  let ?ops = "[Construct 0 ''foo'', Construct 1 ''bar'']"
  obtain w where r: "run ?ops world0 = Returns w" and f0: "files w 0 = Some \<lparr>fh = Some 0\<rparr>"
    and f1: "files w 1 = Some \<lparr>fh = Some 1\<rparr>" and f2: "files w 2 = None"
    by (simp add: exec_defs)
  note t = transfer_adopts_and_empties [OF r f0]
  have a: "\<exists>w'. File_move_assign 1 0 w = Returns w'
            \<and> files w' 1 = Some \<lparr>fh = Some 0\<rparr> \<and> files w' 0 = Some \<lparr>fh = None\<rparr>"
    using t [THEN conjunct1, rule_format, of 1, OF _ f1] by simp
  have b: "\<exists>w'. File_move_ctor 2 0 w = Returns w'
            \<and> files w' 2 = Some \<lparr>fh = Some 0\<rparr> \<and> files w' 0 = Some \<lparr>fh = None\<rparr>"
    using t [THEN conjunct2, THEN conjunct1, rule_format, OF f2] by auto
  have c: "\<exists>w2. run [Construct 0 ''foo'', MoveConstruct 1 0, Destroy 0, Destroy 1] world0 = Returns w2
         \<and> log w2 = [(0, Opening ''foo''), (0, Closing ''foo'')]"
    using t [THEN conjunct2, THEN conjunct2, rule_format, of 0 1 "''foo''"] by auto
  from r f0 a b c show ?thesis by auto
qed


text \<open>
  Claim C3. In every reachable world, move assignment into a \<open>File\<close> that holds a
  \<open>FileHandle\<close> \<open>a\<close>, from a distinct live \<open>File\<close>, first calls \<open>close\<close> on \<open>a\<close> while the
  target still holds it (the only call logged, and the first \<open>close\<close> of \<open>a\<close>), and then
  moves the pointer: the target holds what the source held, which is not \<open>a\<close>. In any
  world, a move assignment that returns has logged at most one call, a \<open>close\<close>.
  Scenario, for distinct \<open>A\<close> and \<open>C\<close>: construct \<open>A\<close>, construct \<open>C\<close>, move \<open>A\<close> into \<open>C\<close>:
  the resource of \<open>C\<close> is closed once and \<open>C\<close> holds the resource of \<open>A\<close>; destroying
  \<open>C\<close> closes that one once.
\<close>

theorem transfer_closes_prior_resource:
  assumes "run ops world0 = Returns w" and "this \<noteq> other"
    and "files w this = Some f" and "fh f = Some a" and "files w other = Some g"
  shows "(\<exists>h w1 w'. heap w a = Some h
            \<and> invoke (total FileHandle_close) a w = Returns w1
            \<and> log w1 = log w @ [(a, Closing (name h))]
            \<and> files w1 = files w
            \<and> move_fh this other w1 = Returns w'
            \<and> File_move_assign this other w = Returns w'
            \<and> log w' = log w1
            \<and> files w' this = Some \<lparr>fh = fh g\<rparr>
            \<and> fh g \<noteq> Some a
            \<and> closes a (log w) = 0 \<and> closes a (log w') = 1)
       \<and> (\<forall>v u x x'. File_move_assign v u x = Returns x' \<longrightarrow>
             (\<exists>es. log x' = log x @ es \<and> length es \<le> 1 \<and> (\<forall>e\<in>set es. is_close (snd e))))
       \<and> (\<forall>A C n m. A \<noteq> C \<longrightarrow>
             (\<exists>w3 w4. run [Construct A n, Construct C m, MoveAssign C A] world0 = Returns w3
                \<and> log w3 = [(0, Opening n), (1, Opening m), (1, Closing m)]
                \<and> files w3 C = Some \<lparr>fh = Some 0\<rparr>
                \<and> run [Construct A n, Construct C m, MoveAssign C A, Destroy C] world0 = Returns w4
                \<and> log w4 = [(0, Opening n), (1, Opening m), (1, Closing m), (0, Closing n)]))"
proof -
  from assms(1) have c: "consistent w" by (rule reachable_consistent)
  from assms(3,4) have hv: "holds w this a" by (simp add: holds_def)
  with c obtain h where h: "heap w a = Some h"
    using consistent_holds_heap by blast
  let ?w1 = "w\<lparr>heap := (heap w)(a \<mapsto> fst (FileHandle_close h)),
               log := log w @ [(a, snd (FileHandle_close h))]\<rparr>"
  have i: "invoke (total FileHandle_close) a w = Returns ?w1"
    using h by (rule invoke_total)
  have ma: "File_move_assign this other w = move_fh this other ?w1"
    using assms(2,3,4) i by (simp add: File_move_assign_def)
  note o = File_move_assign_owning[OF assms(2,3,5,4) h]
  have ng: "fh g \<noteq> Some a"
  proof
    assume "fh g = Some a"
    with assms(5) have "holds w other a" by (simp add: holds_def)
    with c hv have "this = other" by (rule consistent_unique)
    with assms(2) show False by simp
  qed
  have own: "owned w a" using hv by (auto simp: owned_def)
  have lt: "a < next_addr w"
    using c h unfolding consistent_def by simp
  have c0: "closes a (log w) = 0"
    using c own unfolding consistent_def by simp
  have 1: "\<exists>h w1 w'. heap w a = Some h
            \<and> invoke (total FileHandle_close) a w = Returns w1
            \<and> log w1 = log w @ [(a, Closing (name h))]
            \<and> files w1 = files w
            \<and> move_fh this other w1 = Returns w'
            \<and> File_move_assign this other w = Returns w'
            \<and> log w' = log w1
            \<and> files w' this = Some \<lparr>fh = fh g\<rparr>
            \<and> fh g \<noteq> Some a
            \<and> closes a (log w) = 0 \<and> closes a (log w') = 1"
    apply (rule exI[of _ h])
    apply (rule exI[of _ ?w1])
    apply (rule exI[of _ "w\<lparr>heap := (heap w)(a := None),
                log := log w @ [(a, Closing (name h))],
                files := (files w)(other \<mapsto> \<lparr>fh = None\<rparr>, this \<mapsto> \<lparr>fh = fh g\<rparr>)\<rparr>"])
    using h i ma o ng c0 by (simp add: FileHandle_close_def closes_snoc)
  have 2: "\<forall>v u x x'. File_move_assign v u x = Returns x' \<longrightarrow>
             (\<exists>es. log x' = log x @ es \<and> length es \<le> 1 \<and> (\<forall>e\<in>set es. is_close (snd e)))"
    using File_move_assign_log by blast
  have 3: "\<forall>A C n m. A \<noteq> C \<longrightarrow>
             (\<exists>w3 w4. run [Construct A n, Construct C m, MoveAssign C A] world0 = Returns w3
                \<and> log w3 = [(0, Opening n), (1, Opening m), (1, Closing m)]
                \<and> files w3 C = Some \<lparr>fh = Some 0\<rparr>
                \<and> run [Construct A n, Construct C m, MoveAssign C A, Destroy C] world0 = Returns w4
                \<and> log w4 = [(0, Opening n), (1, Opening m), (1, Closing m), (0, Closing n)])"
    by (simp add: exec_defs)
  from 1 2 3 show ?thesis by blast
qed

theorem transfer_closes_prior_resource_witness:
  "\<exists>w. run [Construct 0 ''foo'', Construct 1 ''bar''] world0 = Returns w
      \<and> files w 1 = Some \<lparr>fh = Some 1\<rparr> \<and> files w 0 = Some \<lparr>fh = Some 0\<rparr>
      \<and> heap w 1 = Some \<lparr>name = ''bar''\<rparr>
      \<and> (\<exists>w'. File_move_assign 1 0 w = Returns w'
            \<and> log w' = log w @ [(1, Closing ''bar'')]
            \<and> files w' 1 = Some \<lparr>fh = Some 0\<rparr>
            \<and> closes 1 (log w') = 1)"
proof -
  let ?ops = "[Construct 0 ''foo'', Construct 1 ''bar'']"
  obtain w where r: "run ?ops world0 = Returns w" and f0: "files w 0 = Some \<lparr>fh = Some 0\<rparr>"
    and f1: "files w 1 = Some \<lparr>fh = Some 1\<rparr>" and h1: "heap w 1 = Some \<lparr>name = ''bar''\<rparr>"
    by (simp add: exec_defs)
  have ne: "(1::nat) \<noteq> 0" by simp
  have p: "fh \<lparr>fh = Some (1::nat)\<rparr> = Some 1" by simp
  note t = transfer_closes_prior_resource [OF r ne f1 p f0, THEN conjunct1]
  from t h1 have "\<exists>w'. File_move_assign 1 0 w = Returns w' \<and> log w' = log w @ [(1, Closing ''bar'')]
            \<and> files w' 1 = Some \<lparr>fh = Some 0\<rparr> \<and> closes 1 (log w') = 1"
    by clarsimp
  with r f0 f1 h1 show ?thesis by blast
qed


text \<open>
  Claim C4. In every world reached from the empty one, constructing a \<open>File\<close> with
  identifier \<open>n\<close> adds exactly one call to the log, \<open>open\<close> with \<open>n\<close> on a fresh
  \<open>FileHandle\<close> that had never been opened before, and the new object holds that
  \<open>FileHandle\<close> (state Owning).
\<close>

theorem File_ctor_opens_once:
  assumes "run ops world0 = Returns w" and "files w v = None"
  shows "\<exists>w'. File_ctor n v w = Returns w'
           \<and> log w' = log w @ [(next_addr w, Opening n)]
           \<and> files w' v = Some \<lparr>fh = Some (next_addr w)\<rparr>
           \<and> holds w' v (next_addr w)
           \<and> heap w' (next_addr w) = Some \<lparr>name = n\<rparr>
           \<and> opens (next_addr w) (log w) = 0
           \<and> opens (next_addr w) (log w') = 1"
proof -
  from assms(1) have "consistent w" by (rule reachable_consistent)
  then have "opens (next_addr w) (log w) = 0"
    unfolding consistent_def by simp
  then show ?thesis
    using File_ctor_fresh[OF assms(2), of n] by (simp add: holds_def opens_snoc)
qed

theorem File_ctor_opens_once_witness:
  "run [] world0 = Returns world0 \<and> files world0 0 = None
   \<and> (\<exists>w'. File_ctor ''foo'' 0 world0 = Returns w'
           \<and> log w' = [(0, Opening ''foo'')]
           \<and> files w' 0 = Some \<lparr>fh = Some 0\<rparr>
           \<and> opens 0 (log w') = 1)"
  using File_ctor_opens_once [of "[]" world0 0 "''foo''"]
  by (auto simp: world0_def)


text \<open>
  Claim C5. At every point of a run from the empty world (after every prefix of the
  operations), no two \<open>File\<close> objects hold the same \<open>FileHandle\<close>. After a move
  assignment or a move construction from a \<open>File\<close> that held \<open>a\<close>, the target is the only
  object that holds \<open>a\<close>. There is no operation that copies: \<open>op\<close> has none, as the copy
  constructor and the copy assignment of \<open>File\<close> are deleted.
\<close>

theorem single_owner:
  assumes "run ops world0 = Returns w"
  shows "(\<forall>k. \<exists>wk. run (take k ops) world0 = Returns wk
             \<and> (\<forall>v v' a. holds wk v a \<longrightarrow> holds wk v' a \<longrightarrow> v = v'))
       \<and> (\<forall>this other a w'. this \<noteq> other \<longrightarrow> holds w other a \<longrightarrow>
             File_move_assign this other w = Returns w' \<longrightarrow>
             (\<forall>x. holds w' x a \<longleftrightarrow> x = this))
       \<and> (\<forall>this other a w'. holds w other a \<longrightarrow>
             File_move_ctor this other w = Returns w' \<longrightarrow>
             (\<forall>x. holds w' x a \<longleftrightarrow> x = this))"
proof -
  from assms have c: "consistent w" by (rule reachable_consistent)
  have 1: "\<exists>wk. run (take k ops) world0 = Returns wk
             \<and> (\<forall>v v' a. holds wk v a \<longrightarrow> holds wk v' a \<longrightarrow> v = v')" for k
  proof -
    from run_prefix[OF assms, of k] obtain wk where wk: "run (take k ops) world0 = Returns wk" ..
    then have "consistent wk" by (rule reachable_consistent)
    then have "\<forall>v v' a. holds wk v a \<longrightarrow> holds wk v' a \<longrightarrow> v = v'"
      using consistent_unique by blast
    with wk show ?thesis by blast
  qed
  have 2: "holds w' x a \<longleftrightarrow> x = this"
    if "this \<noteq> other" "holds w other a" "File_move_assign this other w = Returns w'"
    for this other a w' x
  proof -
    have "holds w' x a \<longleftrightarrow> (if x = this then holds w other a else x \<noteq> other \<and> holds w x a)"
      using that(3,1) by (rule holds_move_assign)
    moreover have "x = other" if "holds w x a" using c that \<open>holds w other a\<close> by (rule consistent_unique)
    ultimately show ?thesis using that(2) by auto
  qed
  have 3: "holds w' x a \<longleftrightarrow> x = this"
    if "holds w other a" "File_move_ctor this other w = Returns w'"
    for this other a w' x
  proof -
    from that(2) have live: "files w this = None"
      by (cases "files w this") (simp_all add: File_move_ctor_def)
    with that(1) have ne: "this \<noteq> other" by (auto simp: holds_def)
    let ?w0 = "w\<lparr>files := (files w)(this \<mapsto> \<lparr>fh = None\<rparr>)\<rparr>"
    have H: "holds ?w0 y b \<longleftrightarrow> holds w y b" for y b
      using live by (auto simp: holds_def)
    have m: "File_move_assign this other ?w0 = Returns w'"
      using that(2) live by (simp add: File_move_ctor_def)
    have "holds w' x a \<longleftrightarrow> (if x = this then holds ?w0 other a else x \<noteq> other \<and> holds ?w0 x a)"
      using m ne by (rule holds_move_assign)
    moreover have "x = other" if "holds w x a" using c that \<open>holds w other a\<close> by (rule consistent_unique)
    ultimately show ?thesis using that(1) unfolding H by auto
  qed
  from 1 2 3 show ?thesis by blast
qed

theorem single_owner_witness:
  "\<exists>w. run [Construct 0 ''foo (file)'', Construct 1 ''bar (file)'', MoveAssign 0 1] world0 = Returns w
      \<and> holds w 0 1 \<and> \<not> holds w 1 1
      \<and> (\<forall>v v' a. holds w v a \<longrightarrow> holds w v' a \<longrightarrow> v = v')
      \<and> (\<exists>w'. File_move_assign 1 0 w = Returns w' \<and> (\<forall>x. holds w' x 1 \<longleftrightarrow> x = 1))"
proof -
  let ?ops = "[Construct 0 ''foo (file)'', Construct 1 ''bar (file)'', MoveAssign 0 1]"
  obtain w where r: "run ?ops world0 = Returns w" and h0: "holds w 0 1" and h1: "\<not> holds w 1 1"
    and f1: "files w 1 = Some \<lparr>fh = None\<rparr>"
    by (simp add: exec_defs holds_def)
  note t = single_owner [OF r]
  from t [THEN conjunct1, rule_format, of 3] r
  have u: "\<forall>v v' a. holds w v a \<longrightarrow> holds w v' a \<longrightarrow> v = v'" by simp
  obtain w' where m: "File_move_assign 1 0 w = Returns w'"
    using r f1 h0 by (auto simp: exec_defs holds_def split: option.splits)
  have ne: "(1::nat) \<noteq> 0" by simp
  from t [THEN conjunct2, THEN conjunct1, rule_format, OF ne h0 m]
  have "\<forall>x. holds w' x 1 \<longleftrightarrow> x = 1" by blast
  with r h0 h1 u m show ?thesis by blast
qed


text \<open>
  Claim C6, as stated: \<open>write\<close> on an Empty \<open>File\<close> fails with \<open>UseAfterRelease\<close>. It
  does not: \<open>File::write\<close> has no check and raises nothing. In the second block of
  \<open>main\<close>, extended by the \<open>bar.write()\<close> that its comment forbids, the call dereferences
  the null \<open>fh_\<close> of the moved-from \<open>bar\<close>.
\<close>

theorem write_after_move_counterexample:
  "run [Construct 0 ''foo (file)'', Construct 1 ''bar (file)'', MoveAssign 0 1, WriteTo 1] world0
     = Undefined NullDereference
   \<and> raised (run [Construct 0 ''foo (file)'', Construct 1 ''bar (file)'', MoveAssign 0 1, WriteTo 1]
        world0) \<noteq> Some UseAfterRelease"
  by (simp add: exec_defs)

text \<open>
  Claim C6, amended. \<open>write\<close> on a live \<open>File\<close> in the Empty state is a null-pointer
  dereference, which is undefined behaviour: no exception is raised, and nothing is
  reported to the caller.
\<close>

theorem write_on_empty_is_undefined:
  "files w v = Some f \<Longrightarrow> fh f = None \<Longrightarrow>
   File_write v w = Undefined NullDereference \<and> raised (File_write v w) = None"
  by (simp add: File_write_def)

theorem write_on_empty_is_undefined_witness:
  "run [Construct 0 ''bar (file)'', MoveConstruct 1 0] world0 =
     Returns \<lparr>heap = (\<lambda>_. None)(0 \<mapsto> \<lparr>name = ''bar (file)''\<rparr>), next_addr = 1,
              files = (\<lambda>_. None)(0 \<mapsto> \<lparr>fh = None\<rparr>, 1 \<mapsto> \<lparr>fh = Some 0\<rparr>),
              log = [(0, Opening ''bar (file)'')]\<rparr>
   \<and> File_write 0 \<lparr>heap = (\<lambda>_. None)(0 \<mapsto> \<lparr>name = ''bar (file)''\<rparr>), next_addr = 1,
              files = (\<lambda>_. None)(0 \<mapsto> \<lparr>fh = None\<rparr>, 1 \<mapsto> \<lparr>fh = Some 0\<rparr>),
              log = [(0, Opening ''bar (file)'')]\<rparr> = Undefined NullDereference"
  using write_on_empty_is_undefined
    [of "\<lparr>heap = (\<lambda>_. None)(0 \<mapsto> \<lparr>name = ''bar (file)''\<rparr>), next_addr = 1,
              files = (\<lambda>_. None)(0 \<mapsto> \<lparr>fh = None\<rparr>, 1 \<mapsto> \<lparr>fh = Some 0\<rparr>),
              log = [(0, Opening ''bar (file)'')]\<rparr>" 0 "\<lparr>fh = None\<rparr>"]
  by (simp add: exec_defs)


text \<open>
  Claim C7. The constructor of \<open>File\<close>, run in a reachable world with an \<open>open\<close>
  operation that fails with \<open>e\<close> on the freshly allocated \<open>FileHandle\<close>, ends with the
  exception \<open>e\<close>; no \<open>File\<close> object is added, nothing is logged, the \<open>FileHandle\<close> is
  deleted, no \<open>File\<close> holds its address, and whatever operations run afterwards, none
  ever holds or closes it. (With \<open>FileHandle::open\<close> itself the premise never holds:
  see claim C9.)
\<close>

theorem failed_open_propagates:
  assumes "run ops world0 = Returns w" and "files w v = None"
    and "open_op n FileHandle_new = Inl e"
  shows "\<exists>w'. File_ctor_with open_op n v w = Throws e w'
           \<and> files w' = files w \<and> log w' = log w
           \<and> heap w' (next_addr w) = None
           \<and> \<not> owned w' (next_addr w)
           \<and> opens (next_addr w) (log w') = 0 \<and> closes (next_addr w) (log w') = 0
           \<and> (\<forall>ops' w''. run ops' w' = Returns w'' \<longrightarrow>
                 \<not> owned w'' (next_addr w) \<and> closes (next_addr w) (log w'') = 0)"
proof -
  from assms(1) have c: "consistent w" by (rule reachable_consistent)
  let ?a = "next_addr w"
  let ?w' = "w\<lparr>heap := (heap w)(?a := None), next_addr := Suc ?a\<rparr>"
  have t: "File_ctor_with open_op n v w = Throws e ?w'"
    using assms(2,3) by (simp add: File_ctor_with_def Let_def invoke_def delete_fh_def)
  have no: "\<not> owned w ?a"
  proof
    assume "owned w ?a"
    then obtain x where "holds w x ?a" unfolding owned_def ..
    with c obtain h where "heap w ?a = Some h" using consistent_holds_heap by blast
    with c have "?a < ?a" unfolding consistent_def by blast
    then show False by simp
  qed
  have H: "holds ?w' x b \<longleftrightarrow> holds w x b" for x b
    by (simp add: holds_def)
  have no': "\<not> owned ?w' ?a" using no unfolding owned_def H .
  have lt: "?a < next_addr ?w'" by simp
  have o0: "opens ?a (log w) = 0" and c0: "closes ?a (log w) = 0"
    using c unfolding consistent_def by simp_all
  have later: "\<forall>ops' w''. run ops' ?w' = Returns w'' \<longrightarrow>
                 \<not> owned w'' ?a \<and> closes ?a (log w'') = 0"
    using unowned_run[OF no' lt] c0 by auto
  show ?thesis
    apply (rule exI[of _ ?w'])
    using t no' o0 c0 later by simp
qed

theorem failed_open_propagates_witness:
  "run [] world0 = Returns world0 \<and> files world0 0 = None
   \<and> File_ctor_with (\<lambda>n h. Inl ResourceUnavailable) ''missing'' 0 world0
       = Throws ResourceUnavailable (world0\<lparr>next_addr := 1\<rparr>)
   \<and> files (world0\<lparr>next_addr := 1\<rparr>) = (\<lambda>_. None) \<and> log (world0\<lparr>next_addr := 1\<rparr>) = []"
proof -
  have r: "run [] world0 = Returns world0" by simp
  have f: "files world0 0 = None" by (simp add: world0_def)
  have "\<exists>w'. File_ctor_with (\<lambda>n h. Inl ResourceUnavailable) ''missing'' 0 world0 = Throws ResourceUnavailable w'
           \<and> files w' = files world0 \<and> log w' = log world0"
    using failed_open_propagates [OF r f, of "\<lambda>n h. Inl ResourceUnavailable" "''missing''" ResourceUnavailable]
    by auto
  then show ?thesis
    by (auto simp: exec_defs)
qed


text \<open>
  Claim C8. Moving a \<open>File\<close> into itself returns at the guard \<open>this == &other\<close>: the
  world after the call is the world before it, so the state of the handle, the
  resource it holds and the log (no \<open>close\<close>) are unchanged.
\<close>

theorem self_move_is_noop:
  "File_move_assign v v w = Returns w \<and> step (MoveAssign v v) w = Returns w
   \<and> run [MoveAssign v v] w = Returns w"
  by (simp add: File_move_assign_def)


text \<open>
  Claim C9. \<open>FileHandle::open\<close> returns for every name and every object, so the
  constructor of \<open>File\<close> never ends with an exception, for any identifier; constructing
  an object that is not yet alive returns.
\<close>

theorem File_ctor_never_fails:
  "(\<forall>h. \<exists>h' ev. total (FileHandle_open n) h = Inr (h', ev))
   \<and> (\<forall>e w'. File_ctor n v w \<noteq> Throws e w')
   \<and> (files w v = None \<longrightarrow> (\<exists>w'. File_ctor n v w = Returns w'))"
  by (simp add: File_ctor_no_throw File_ctor_fresh total_def FileHandle_open_def)

theorem File_ctor_never_fails_witness:
  "files world0 0 = None
   \<and> File_ctor ''foo (file)'' 0 world0 =
       Returns \<lparr>heap = (\<lambda>_. None)(0 \<mapsto> \<lparr>name = ''foo (file)''\<rparr>), next_addr = 1,
                files = (\<lambda>_. None)(0 \<mapsto> \<lparr>fh = Some 0\<rparr>),
                log = [(0, Opening ''foo (file)'')]\<rparr>
   \<and> (\<exists>w'. File_ctor ''foo (file)'' 0 world0 = Returns w')"
  using File_ctor_never_fails [of "''foo (file)''" 0 world0]
  by (simp add: exec_defs)


text \<open>
  Claim C10. Every method of the raw collaborator \<open>FileHandle\<close> returns normally whatever
  was called before: \<open>write\<close> and \<open>close\<close> on a default-constructed object use the name
  \<open>uninitialized.\<close>; \<open>close\<close> and \<open>write\<close> after a \<open>close\<close> use the name \<open>closed.\<close>;
  \<open>open\<close> after \<open>close\<close> stores and prints the new name. Any sequence of calls on any
  object prints one line per call; the calls \<open>main\<close> makes on \<open>foo\<close> print the seven
  lines listed.
\<close>

theorem FileHandle_misuse_returns:
  "FileHandle_write FileHandle_new = (FileHandle_new, Writing ''uninitialized.'')
   \<and> FileHandle_close FileHandle_new = (\<lparr>name = ''closed.''\<rparr>, Closing ''uninitialized.'')
   \<and> FileHandle_close (fst (FileHandle_close h)) = (\<lparr>name = ''closed.''\<rparr>, Closing ''closed.'')
   \<and> FileHandle_write (fst (FileHandle_close h)) = (\<lparr>name = ''closed.''\<rparr>, Writing ''closed.'')
   \<and> FileHandle_open n (fst (FileHandle_close h)) = (\<lparr>name = n\<rparr>, Opening n)
   \<and> length (snd (FileHandle_calls cs h)) = length cs
   \<and> FileHandle_calls main_foo_calls FileHandle_new =
       (\<lparr>name = ''foo (reborn)''\<rparr>,
        [Writing ''uninitialized.'', Opening ''foo (fh)'', Writing ''foo (fh)'',
         Closing ''foo (fh)'', Writing ''closed.'', Closing ''closed.'',
         Opening ''foo (reborn)''])
   \<and> line (snd (FileHandle_close FileHandle_new)) = ''closing: uninitialized.'' @ [CHR 0x0A]"
  by (simp add: FileHandle_calls_length FileHandle_new_def FileHandle_open_def
      FileHandle_close_def FileHandle_write_def main_foo_calls_def)

end
